theory Spec2Isabelle
  imports Complex_Main "HOL-Library.Word" "HOL-Library.Multiset"
begin

section \<open>Data model\<close>

text \<open>
  The in-memory semantic cache of kallm: \<open>MemoryCache\<close> with its methods, \<open>Options\<close> and
  the vector functions of package \<open>cache\<close>, and \<open>CacheEntry\<close> of package \<open>api\<close>.

  Modelling conventions.
  \<^item> A \<open>float64\<close> is modelled twice. The type \<open>float64\<close> below has the values of IEEE 754
    binary64: the finite numbers, the two infinities and NaN, with operations that round to
    nearest (ties to even), overflow to an infinity and produce NaN as the hardware does;
    \<open>CosineSimilarity_float64\<close> is the function on these values, and the statements about the
    value that \<open>CosineSimilarity\<close> returns are made of it. Where a similarity is only compared
    (with the threshold, with \<open>0.99\<close>, with another similarity), that is in the cache
    operations, it is a \<open>real\<close> and \<open>CosineSimilarity\<close> is the same body in exact arithmetic.
  \<^item> A \<open>time.Time\<close> is an \<open>int\<close>, an instant on a linear time axis whose origin \<open>0\<close> is
    the zero value of \<open>time.Time\<close>; \<open>t.Before(u)\<close> is \<open>t < u\<close> and \<open>t.After(u)\<close> is
    \<open>u < t\<close>. Each \<open>time.Now()\<close> is a parameter \<open>now\<close> of the operation that reads it.
  \<^item> The cache stores pointers (\<open>[]*api.CacheEntry\<close>). A non-nil pointer is an address
    \<open>addr\<close>, and the objects live in a heap, a function from addresses to entries.
  \<^item> Each operation holds the cache's lock from its first to its last statement, so it is
    one atomic state transformer. A \<open>go\<close> statement adds the call to a list of started
    goroutines, which run later, one at a time.
\<close>

type_synonym time = int
type_synonym addr = nat

record ('req, 'resp) CacheEntry =
  Request :: 'req
  Response :: 'resp
  Embedding :: "real list"
  CreatedAt :: time
  ExpiresAt :: time
  HitCount :: "64 word"
  LastHitAt :: time

type_synonym ('req, 'resp) heap = "addr \<Rightarrow> ('req, 'resp) CacheEntry"

record Options =
  MaxSize :: int
  DefaultTTL :: int
  CleanupInterval :: int
  SimilarityThreshold :: real

record MemoryCache =
  entries :: "addr list"
  opts :: Options
  hits :: "64 word"
  misses :: "64 word"

section \<open>Vector math in exact arithmetic\<close>

text \<open>
  The loop of \<open>CosineSimilarity\<close>: \<open>for i := range a\<close> adds \<open>a[i] * b[i]\<close>, \<open>a[i] * a[i]\<close>
  and \<open>b[i] * b[i]\<close> to \<open>dotProduct\<close>, \<open>normA\<close> and \<open>normB\<close>. It is only entered with
  \<open>len(a) = len(b)\<close>.
\<close>

fun cosine_loop :: "real list \<Rightarrow> real list \<Rightarrow> real \<times> real \<times> real \<Rightarrow> real \<times> real \<times> real" where
  "cosine_loop (x # xs) (y # ys) (dotProduct, normA, normB) =
     cosine_loop xs ys (dotProduct + x * y, normA + x * x, normB + y * y)"
| "cosine_loop _ _ acc = acc"

definition CosineSimilarity :: "real list \<Rightarrow> real list \<Rightarrow> real" where
  "CosineSimilarity a b =
     (if length a \<noteq> length b \<or> length a = 0 then 0
      else case cosine_loop a b (0, 0, 0) of (dotProduct, normA, normB) \<Rightarrow>
        if normA = 0 \<or> normB = 0 then 0
        else dotProduct / (sqrt normA * sqrt normB))"

section \<open>Vector math on binary64 values\<close>

text \<open>
  A \<open>float64\<close> value is a finite number, an infinity or NaN. The two zeros of binary64 are
  the one value \<open>Finite 0\<close> (they are equal for \<open>==\<close>, and they differ only in the sign of
  a quotient by zero, which is taken as for \<open>+0\<close>); the NaNs are one value. \<open>round64\<close> rounds
  a real number to the nearest binary64 value, ties to even: the unit in the last place is
  \<open>2\<close> to the power \<open>e - 52\<close>, where \<open>e\<close> is the binary exponent of the number and at least
  \<open>-1022\<close> (the subnormal range), and a result of magnitude \<open>2 ^ 1024\<close> or more is an
  infinity. Each arithmetic operation is the exact operation followed by \<open>round64\<close> on finite
  operands, one rounding per operation, and follows IEEE 754 on the special values. \<open>feq\<close> is
  the \<open>==\<close> of Go.
\<close>

datatype float64 = Finite real | PInf | NInf | NaN

definition round_even :: "real \<Rightarrow> int" where
  "round_even q =
     (let n = \<lfloor>q\<rfloor>
      in if q - of_int n < 1 / 2 then n
         else if 1 / 2 < q - of_int n then n + 1
         else if even n then n else n + 1)"

definition round64 :: "real \<Rightarrow> float64" where
  "round64 x =
     (if x = 0 then Finite 0
      else let e = max \<lfloor>log 2 \<bar>x\<bar>\<rfloor> (- 1022);
               ulp = 2 powr of_int (e - 52);
               y = of_int (round_even (x / ulp)) * ulp
           in if 2 ^ 1024 \<le> \<bar>y\<bar> then (if 0 < x then PInf else NInf) else Finite y)"

fun fadd :: "float64 \<Rightarrow> float64 \<Rightarrow> float64" where
  "fadd (Finite x) (Finite y) = round64 (x + y)"
| "fadd NaN _ = NaN"
| "fadd _ NaN = NaN"
| "fadd PInf NInf = NaN"
| "fadd NInf PInf = NaN"
| "fadd PInf _ = PInf"
| "fadd _ PInf = PInf"
| "fadd NInf _ = NInf"
| "fadd _ NInf = NInf"

fun fmul :: "float64 \<Rightarrow> float64 \<Rightarrow> float64" where
  "fmul (Finite x) (Finite y) = round64 (x * y)"
| "fmul NaN _ = NaN"
| "fmul _ NaN = NaN"
| "fmul (Finite x) PInf = (if x = 0 then NaN else if 0 < x then PInf else NInf)"
| "fmul (Finite x) NInf = (if x = 0 then NaN else if 0 < x then NInf else PInf)"
| "fmul PInf (Finite y) = (if y = 0 then NaN else if 0 < y then PInf else NInf)"
| "fmul NInf (Finite y) = (if y = 0 then NaN else if 0 < y then NInf else PInf)"
| "fmul PInf PInf = PInf"
| "fmul PInf NInf = NInf"
| "fmul NInf PInf = NInf"
| "fmul NInf NInf = PInf"

fun fdiv :: "float64 \<Rightarrow> float64 \<Rightarrow> float64" where
  "fdiv (Finite x) (Finite y) =
     (if y = 0 then (if x = 0 then NaN else if 0 < x then PInf else NInf)
      else round64 (x / y))"
| "fdiv NaN _ = NaN"
| "fdiv _ NaN = NaN"
| "fdiv (Finite x) PInf = Finite 0"
| "fdiv (Finite x) NInf = Finite 0"
| "fdiv PInf (Finite y) = (if 0 \<le> y then PInf else NInf)"
| "fdiv NInf (Finite y) = (if 0 \<le> y then NInf else PInf)"
| "fdiv PInf PInf = NaN"
| "fdiv PInf NInf = NaN"
| "fdiv NInf PInf = NaN"
| "fdiv NInf NInf = NaN"

fun fsqrt :: "float64 \<Rightarrow> float64" where
  "fsqrt (Finite x) = (if x < 0 then NaN else round64 (sqrt x))"
| "fsqrt PInf = PInf"
| "fsqrt NInf = NaN"
| "fsqrt NaN = NaN"

fun feq :: "float64 \<Rightarrow> float64 \<Rightarrow> bool" where
  "feq NaN _ = False"
| "feq _ NaN = False"
| "feq x y = (x = y)"

text \<open>
  \<open>CosineSimilarity\<close> on these values. The loop \<open>for i := range a\<close> reads \<open>b[i]\<close>, which
  panics when \<open>b\<close> is shorter than \<open>a\<close>; the function only enters the loop with
  \<open>len(a) = len(b)\<close>.
\<close>

datatype panic = IndexOutOfRange

fun cosine_loop_float64 ::
  "float64 list \<Rightarrow> float64 list \<Rightarrow> float64 \<times> float64 \<times> float64
     \<Rightarrow> panic + float64 \<times> float64 \<times> float64" where
  "cosine_loop_float64 [] b acc = Inr acc"
| "cosine_loop_float64 (x # xs) [] acc = Inl IndexOutOfRange"
| "cosine_loop_float64 (x # xs) (y # ys) (dotProduct, normA, normB) =
     cosine_loop_float64 xs ys
       (fadd dotProduct (fmul x y), fadd normA (fmul x x), fadd normB (fmul y y))"

definition CosineSimilarity_float64 :: "float64 list \<Rightarrow> float64 list \<Rightarrow> panic + float64" where
  "CosineSimilarity_float64 a b =
     (if length a \<noteq> length b \<or> length a = 0 then Inr (Finite 0)
      else case cosine_loop_float64 a b (Finite 0, Finite 0, Finite 0) of
        Inl p \<Rightarrow> Inl p
      | Inr (dotProduct, normA, normB) \<Rightarrow>
          if feq normA (Finite 0) \<or> feq normB (Finite 0) then Inr (Finite 0)
          else Inr (fdiv dotProduct (fmul (fsqrt normA) (fsqrt normB))))"

text \<open>A binary64 value (about \<open>4.1e180\<close>) whose square is beyond the largest finite one.\<close>

definition huge :: real where
  "huge = 2 ^ 600"

section \<open>The in-memory cache engine\<close>

text \<open>
  \<open>NewMemoryCache\<close>: a nil \<open>opts\<close> selects \<open>DefaultOptions()\<close>; \<open>make\<close> with a negative
  capacity panics, which is the result \<open>None\<close>. Durations are in nanoseconds.
\<close>

definition DefaultOptions :: Options where
  "DefaultOptions =
     \<lparr>MaxSize = 10000, DefaultTTL = 24 * 3600000000000,
      CleanupInterval = 5 * 60000000000, SimilarityThreshold = 95 / 100\<rparr>"

definition NewMemoryCache :: "Options option \<Rightarrow> MemoryCache option" where
  "NewMemoryCache o_opt =
     (let os = (case o_opt of None \<Rightarrow> DefaultOptions | Some os \<Rightarrow> os)
      in if MaxSize os < 0 then None
         else Some \<lparr>entries = [], opts = os, hits = 0, misses = 0\<rparr>)"

text \<open>
  \<open>Get\<close>: the body of the scan for one entry, on the pair \<open>(bestMatch, bestSimilarity)\<close>,
  which starts at \<open>(nil, 0)\<close>. The result of \<open>Get\<close> is the returned triple, the cache
  with its counter incremented, and the goroutines started (the arguments of the
  \<open>go m.updateHitStats(bestMatch)\<close> calls).
\<close>

definition Get_step ::
  "('req, 'resp) heap \<Rightarrow> time \<Rightarrow> real list \<Rightarrow> real \<Rightarrow> addr option \<times> real \<Rightarrow> addr \<Rightarrow> addr option \<times> real" where
  "Get_step h now embedding threshold best entry =
     (if ExpiresAt (h entry) < now then best
      else let similarity = CosineSimilarity embedding (Embedding (h entry))
           in if similarity \<ge> threshold \<and> similarity > snd best then (Some entry, similarity)
              else best)"

definition Get ::
  "('req, 'resp) heap \<Rightarrow> time \<Rightarrow> real list \<Rightarrow> real \<Rightarrow> MemoryCache
     \<Rightarrow> (addr option \<times> real \<times> bool) \<times> MemoryCache \<times> addr list" where
  "Get h now embedding threshold m =
     (case foldl (Get_step h now embedding threshold) (None, 0) (entries m) of
        (Some bestMatch, bestSimilarity) \<Rightarrow>
          ((Some bestMatch, bestSimilarity, True), m\<lparr>hits := hits m + 1\<rparr>, [bestMatch])
      | (None, bestSimilarity) \<Rightarrow>
          ((None, 0, False), m\<lparr>misses := misses m + 1\<rparr>, []))"

text \<open>\<open>updateHitStats\<close> mutates the entry object its argument points to.\<close>

definition updateHitStats :: "time \<Rightarrow> addr \<Rightarrow> ('req, 'resp) heap \<Rightarrow> ('req, 'resp) heap" where
  "updateHitStats now entry h =
     h(entry := (h entry)\<lparr>HitCount := HitCount (h entry) + 1, LastHitAt := now\<rparr>)"

text \<open>
  The duplicate scan of \<open>Set\<close> and \<open>Delete\<close>: the index of the first stored entry whose
  similarity to the given embedding is above \<open>0.99\<close>, scanning from index \<open>i\<close>.
\<close>

fun find_duplicate :: "('req, 'resp) heap \<Rightarrow> real list \<Rightarrow> addr list \<Rightarrow> nat \<Rightarrow> nat option" where
  "find_duplicate h embedding [] i = None"
| "find_duplicate h embedding (e # es) i =
     (if CosineSimilarity embedding (Embedding (h e)) > 99 / 100 then Some i
      else find_duplicate h embedding es (Suc i))"

text \<open>
  \<open>evictOldest\<close>: the scan keeps \<open>(oldestIdx, oldestTime)\<close>; the entry found is overwritten
  by the last one and the slice is shortened by one.
\<close>

fun oldest_loop :: "('req, 'resp) heap \<Rightarrow> addr list \<Rightarrow> nat \<Rightarrow> nat \<times> time \<Rightarrow> nat \<times> time" where
  "oldest_loop h [] i acc = acc"
| "oldest_loop h (e # es) i (oldestIdx, oldestTime) =
     (if LastHitAt (h e) < oldestTime then oldest_loop h es (Suc i) (i, LastHitAt (h e))
      else oldest_loop h es (Suc i) (oldestIdx, oldestTime))"

definition evictOldest :: "('req, 'resp) heap \<Rightarrow> MemoryCache \<Rightarrow> MemoryCache" where
  "evictOldest h m =
     (if length (entries m) = 0 then m
      else case oldest_loop h (entries m) 0 (0, LastHitAt (h (entries m ! 0))) of
        (oldestIdx, oldestTime) \<Rightarrow>
          m\<lparr>entries := take (length (entries m) - 1)
                          ((entries m)[oldestIdx := entries m ! (length (entries m) - 1)])\<rparr>)"

definition Set :: "('req, 'resp) heap \<Rightarrow> addr \<Rightarrow> MemoryCache \<Rightarrow> MemoryCache" where
  "Set h entry m =
     (case find_duplicate h (Embedding (h entry)) (entries m) 0 of
        Some i \<Rightarrow> m\<lparr>entries := (entries m)[i := entry]\<rparr>
      | None \<Rightarrow>
          (let m' = (if int (length (entries m)) \<ge> MaxSize (opts m) then evictOldest h m else m)
           in m'\<lparr>entries := entries m' @ [entry]\<rparr>))"

definition Delete :: "('req, 'resp) heap \<Rightarrow> real list \<Rightarrow> MemoryCache \<Rightarrow> MemoryCache" where
  "Delete h embedding m =
     (case find_duplicate h embedding (entries m) 0 of
        Some i \<Rightarrow>
          m\<lparr>entries := take (length (entries m) - 1)
                          ((entries m)[i := entries m ! (length (entries m) - 1)])\<rparr>
      | None \<Rightarrow> m)"

definition Clear :: "MemoryCache \<Rightarrow> MemoryCache" where
  "Clear m = m\<lparr>entries := [], hits := 0, misses := 0\<rparr>"

text \<open>\<open>Cleanup\<close>: the loop builds \<open>active\<close> and counts \<open>removed\<close>.\<close>

fun Cleanup_loop :: "('req, 'resp) heap \<Rightarrow> time \<Rightarrow> addr list \<Rightarrow> addr list \<times> nat \<Rightarrow> addr list \<times> nat" where
  "Cleanup_loop h now [] acc = acc"
| "Cleanup_loop h now (e # es) (active, removed) =
     (if now < ExpiresAt (h e) then Cleanup_loop h now es (active @ [e], removed)
      else Cleanup_loop h now es (active, removed + 1))"

definition Cleanup :: "('req, 'resp) heap \<Rightarrow> time \<Rightarrow> MemoryCache \<Rightarrow> nat \<times> MemoryCache" where
  "Cleanup h now m =
     (case Cleanup_loop h now (entries m) ([], 0) of
        (active, removed) \<Rightarrow> (removed, m\<lparr>entries := active\<rparr>))"

definition Size :: "MemoryCache \<Rightarrow> nat" where
  "Size m = length (entries m)"

subsection \<open>The cache with its heap and its started goroutines\<close>

text \<open>
  A system state holds the heap of entry objects, the cache, and the \<open>updateHitStats\<close>
  goroutines that \<open>Get\<close> has started and that have not run yet. \<open>run_updateHitStats\<close> is
  the scheduler letting the \<open>k\<close>-th of them take the write lock and run, at time \<open>now\<close>.
\<close>

record ('req, 'resp) System =
  heap :: "('req, 'resp) heap"
  cache :: MemoryCache
  goroutines :: "addr list"

definition sys_Get ::
  "time \<Rightarrow> real list \<Rightarrow> real \<Rightarrow> ('req, 'resp) System
     \<Rightarrow> (addr option \<times> real \<times> bool) \<times> ('req, 'resp) System" where
  "sys_Get now embedding threshold S =
     (case Get (heap S) now embedding threshold (cache S) of
        (res, m', started) \<Rightarrow> (res, S\<lparr>cache := m', goroutines := goroutines S @ started\<rparr>))"

definition run_updateHitStats :: "time \<Rightarrow> nat \<Rightarrow> ('req, 'resp) System \<Rightarrow> ('req, 'resp) System" where
  "run_updateHitStats now k S =
     (if k < length (goroutines S)
      then S\<lparr>heap := updateHitStats now (goroutines S ! k) (heap S),
             goroutines := take k (goroutines S) @ drop (Suc k) (goroutines S)\<rparr>
      else S)"

definition sys_Set :: "addr \<Rightarrow> ('req, 'resp) System \<Rightarrow> ('req, 'resp) System" where
  "sys_Set entry S = S\<lparr>cache := Set (heap S) entry (cache S)\<rparr>"

definition sys_Cleanup :: "time \<Rightarrow> ('req, 'resp) System \<Rightarrow> nat \<times> ('req, 'resp) System" where
  "sys_Cleanup now S =
     (case Cleanup (heap S) now (cache S) of (removed, m') \<Rightarrow> (removed, S\<lparr>cache := m'\<rparr>))"

definition sys_Clear :: "('req, 'resp) System \<Rightarrow> ('req, 'resp) System" where
  "sys_Clear S = S\<lparr>cache := Clear (cache S)\<rparr>"

section \<open>Vocabulary of the properties\<close>

text \<open>
  \<open>near_duplicate\<close> is the test of \<open>Set\<close> and \<open>Delete\<close>; \<open>qualifies\<close> is the test of
  \<open>Get\<close> on one entry without the comparison with the running best: the entry has not
  expired and its similarity reaches the threshold. \<open>Set_all\<close> is a caller storing a list
  of entries one after the other.
\<close>

abbreviation near_duplicate :: "('req, 'resp) heap \<Rightarrow> addr \<Rightarrow> addr \<Rightarrow> bool" where
  "near_duplicate h p q \<equiv> CosineSimilarity (Embedding (h p)) (Embedding (h q)) > 99 / 100"

fun distinct_embeddings :: "('req, 'resp) heap \<Rightarrow> addr list \<Rightarrow> bool" where
  "distinct_embeddings h [] = True"
| "distinct_embeddings h (p # ps) =
     ((\<forall>q\<in>set ps. \<not> near_duplicate h p q) \<and> distinct_embeddings h ps)"

fun Set_all :: "('req, 'resp) heap \<Rightarrow> addr list \<Rightarrow> MemoryCache \<Rightarrow> MemoryCache" where
  "Set_all h [] m = m"
| "Set_all h (p # ps) m = Set_all h ps (Set h p m)"

abbreviation qualifies :: "('req, 'resp) heap \<Rightarrow> time \<Rightarrow> real list \<Rightarrow> real \<Rightarrow> addr \<Rightarrow> bool" where
  "qualifies h now embedding threshold e \<equiv>
     \<not> ExpiresAt (h e) < now \<and> threshold \<le> CosineSimilarity embedding (Embedding (h e))"

section \<open>A concrete cache\<close>

text \<open>
  The scenario of the specification: dimension 3, capacity 2, a TTL of one hour (times in
  seconds here); \<open>A\<close> at address 0 with embedding \<open>[1, 0, 0]\<close>, \<open>B\<close> at address 1 with
  \<open>[0, 1, 0]\<close>, \<open>C\<close> at address 2 with \<open>[0, 0, 1]\<close>, and two later entries that repeat the
  embeddings of \<open>A\<close> and \<open>B\<close>. \<open>fresh_entry\<close> is an entry as the proxy builds it after a
  miss: expiry at creation time plus TTL, hit fields at their zero values.
\<close>

definition fresh_entry :: "string \<Rightarrow> string \<Rightarrow> real list \<Rightarrow> time \<Rightarrow> int \<Rightarrow> (string, string) CacheEntry" where
  "fresh_entry req resp embedding now ttl =
     \<lparr>Request = req, Response = resp, Embedding = embedding, CreatedAt = now,
      ExpiresAt = now + ttl, HitCount = 0, LastHitAt = 0\<rparr>"

definition example_heap :: "(string, string) heap" where
  "example_heap a =
     (if a = 0 then fresh_entry ''A'' ''answer A'' [1, 0, 0] 100 3600
      else if a = 1 then fresh_entry ''B'' ''answer B'' [0, 1, 0] 100 3600
      else if a = 2 then fresh_entry ''C'' ''answer C'' [0, 0, 1] 300 3600
      else if a = 3 then fresh_entry ''A again'' ''new answer A'' [1, 0, 0] 400 3600
      else fresh_entry ''B again'' ''new answer B'' [0, 1, 0] 500 3600)"

definition example_opts :: Options where
  "example_opts = \<lparr>MaxSize = 2, DefaultTTL = 3600, CleanupInterval = 300, SimilarityThreshold = 9 / 10\<rparr>"

definition example_system :: "(string, string) System" where
  "example_system =
     \<lparr>heap = example_heap,
      cache = \<lparr>entries = [], opts = example_opts, hits = 0, misses = 0\<rparr>,
      goroutines = []\<rparr>"

definition example_A_B :: "(string, string) System" where
  "example_A_B = sys_Set 1 (sys_Set 0 example_system)"

definition example_B_hit :: "(string, string) System" where
  "example_B_hit = run_updateHitStats 201 0 (snd (sys_Get 200 [0, 1, 0] (9 / 10) example_A_B))"

definition example_after_Get :: "(string, string) System" where
  "example_after_Get = snd (sys_Get 200 [0, 1, 0] (9 / 10) example_A_B)"

text \<open>A cache configured with capacity \<open>0\<close>, as \<open>NewMemoryCache\<close> returns it.\<close>

definition capacity_zero :: Options where
  "capacity_zero = \<lparr>MaxSize = 0, DefaultTTL = 3600, CleanupInterval = 300, SimilarityThreshold = 9 / 10\<rparr>"

definition empty_cache_zero :: MemoryCache where
  "empty_cache_zero = \<lparr>entries = [], opts = capacity_zero, hits = 0, misses = 0\<rparr>"

section \<open>Properties of the vector math\<close>

lemma cosine_loop_swap:
  "cosine_loop b a (d, nb, na) = (case cosine_loop a b (d, na, nb) of (d', na', nb') \<Rightarrow> (d', nb', na'))"
proof (induction a arbitrary: b d na nb)
  case Nil
  then show ?case by (cases b) simp_all
next
  case (Cons x xs)
  show ?case
  proof (cases b)
    case Nil
    then show ?thesis by simp
  next
    case (Cons y ys)
    with Cons.IH [of ys "d + x * y" "nb + y * y" "na + x * x"] show ?thesis
      by (simp add: mult.commute)
  qed
qed

lemma cosine_sym: "CosineSimilarity a b = CosineSimilarity b a"
proof -
  obtain d na nb where loop: "cosine_loop a b (0, 0, 0) = (d, na, nb)"
    by (cases "cosine_loop a b (0, 0, 0)") auto
  then have "cosine_loop b a (0, 0, 0) = (d, nb, na)"
    using cosine_loop_swap [of b a 0 0 0] by simp
  with loop show ?thesis
    by (auto simp add: CosineSimilarity_def mult.commute)
qed

lemma round64_zero: "round64 0 = Finite 0"
  by (simp add: round64_def)

lemma round_even_of_int: "round_even (of_int n) = n"
  by (simp add: round_even_def)

lemma fmul_commute: "fmul x y = fmul y x"
  by (cases x; cases y) (simp_all add: mult.commute)

lemma feq_refl: "x \<noteq> NaN \<Longrightarrow> feq x x"
  by (cases x) simp_all

lemma feq_zero: "feq (Finite 0) (Finite 0)" by simp

lemma round64_pow2: "round64 (2 ^ k) = (if k < 1024 then Finite (2 ^ k) else PInf)"
proof -
  have lg: "\<lfloor>log 2 \<bar>2 ^ k :: real\<bar>\<rfloor> = int k" by simp
  have e: "max \<lfloor>log 2 \<bar>2 ^ k :: real\<bar>\<rfloor> (- 1022) = int k" using lg by simp
  have q: "(2 ^ k :: real) / 2 powr of_int (int k - 52) = of_int (2 ^ 52)"
  proof -
    have "(2 ^ k :: real) = 2 powr of_int (int k)" by (simp add: powr_realpow)
    then have "(2 ^ k :: real) / 2 powr of_int (int k - 52) = 2 powr (of_int (int k) - of_int (int k - 52))"
      by (simp add: powr_diff)
    also have "\<dots> = 2 powr 52" by simp
    also have "\<dots> = of_int (2 ^ 52)" 
      using powr_realpow [of 2 52] by simp
    finally show ?thesis .
  qed
  have y: "of_int (round_even ((2 ^ k :: real) / 2 powr of_int (int k - 52))) * 2 powr of_int (int k - 52)
           = (2 ^ k :: real)"
  proof -
    have "of_int (round_even ((2 ^ k :: real) / 2 powr of_int (int k - 52))) = ((2 ^ k :: real) / 2 powr of_int (int k - 52))"
      unfolding q round_even_of_int ..
    then show ?thesis by simp
  qed
  have "((2::real) ^ 1024 \<le> 2 ^ k) = (1024 \<le> k)"
    by (rule power_increasing_iff) simp
  moreover have "\<bar>2 ^ k :: real\<bar> = 2 ^ k" by (rule abs_of_nonneg) (rule zero_le_power, simp)
  ultimately have cmp: "(2 ^ 1024 \<le> \<bar>2 ^ k :: real\<bar>) = (\<not> k < 1024)"
    by (simp only: not_less)
  show ?thesis
    unfolding round64_def Let_def e y cmp by simp
qed

lemma cosine_loop_float64_total:
  "length a \<le> length b \<Longrightarrow> \<exists>acc'. cosine_loop_float64 a b acc = Inr acc'"
proof (induction a arbitrary: b acc)
  case Nil
  then show ?case by (cases acc) simp
next
  case (Cons x xs)
  then obtain y ys where b: "b = y # ys" by (cases b) auto
  obtain d na nb where acc: "acc = (d, na, nb)" by (rule prod_cases3)
  from Cons.prems b have "length xs \<le> length ys" by simp
  from Cons.IH [OF this] show ?case by (simp add: b acc)
qed

lemma cosine_loop_float64_swap:
  "length a = length b \<Longrightarrow>
   cosine_loop_float64 a b (d, na, nb) = Inr (d', na', nb') \<Longrightarrow>
   cosine_loop_float64 b a (d, nb, na) = Inr (d', nb', na')"
proof (induction a b arbitrary: d na nb rule: list_induct2)
  case Nil
  then show ?case by simp
next
  case (Cons x xs y ys)
  from Cons.prems have
    "cosine_loop_float64 xs ys (fadd d (fmul x y), fadd na (fmul x x), fadd nb (fmul y y)) =
       Inr (d', na', nb')" by simp
  from Cons.IH [OF this] show ?case by (simp add: fmul_commute [of y x])
qed

lemma cosine_loop_float64_zero_a:
  "length a = length b \<Longrightarrow> \<forall>x\<in>set a. x = Finite 0 \<Longrightarrow>
   cosine_loop_float64 a b (d, Finite 0, nb) = Inr (d', na', nb') \<Longrightarrow> na' = Finite 0"
proof (induction a b arbitrary: d nb rule: list_induct2)
  case Nil
  then show ?case by simp
next
  case (Cons x xs y ys)
  from Cons.prems have x: "x = Finite 0" and rest: "\<forall>x\<in>set xs. x = Finite 0" by simp_all
  from Cons.prems x have
    "cosine_loop_float64 xs ys (fadd d (fmul x y), Finite 0, fadd nb (fmul y y)) = Inr (d', na', nb')"
    by (simp add: round64_zero)
  from Cons.IH [OF rest this] show ?case .
qed

lemma cosine_loop_float64_zero_b:
  "length a = length b \<Longrightarrow> \<forall>y\<in>set b. y = Finite 0 \<Longrightarrow>
   cosine_loop_float64 a b (d, na, Finite 0) = Inr (d', na', nb') \<Longrightarrow> nb' = Finite 0"
proof (induction a b arbitrary: d na rule: list_induct2)
  case Nil
  then show ?case by simp
next
  case (Cons x xs y ys)
  from Cons.prems have y: "y = Finite 0" and rest: "\<forall>y\<in>set ys. y = Finite 0" by simp_all
  from Cons.prems y have
    "cosine_loop_float64 xs ys (fadd d (fmul x y), fadd na (fmul x x), Finite 0) = Inr (d', na', nb')"
    by (simp add: round64_zero)
  from Cons.IH [OF rest this] show ?case .
qed

lemma division_by_zero_norm:
  "fdiv (Finite 0) (fmul (fsqrt (Finite 0)) (fsqrt (Finite 0))) = NaN"
  "fdiv (Finite 1) (fmul (fsqrt (Finite 0)) (fsqrt (Finite 1))) = PInf"
  using round64_pow2 [of 0] by (simp_all add: round64_zero)

lemma round64_small:
  "round64 1 = Finite 1" "round64 2 = Finite 2" "round64 4 = Finite 4"
  using round64_pow2 [of 0] round64_pow2 [of 1] round64_pow2 [of 2] by simp_all

lemma fmul_overflow: "fmul (Finite huge) (Finite huge) = PInf"
proof -
  have "huge * huge = 2 ^ 1200" unfolding huge_def by (simp only: power_add [symmetric]) simp
  then have "fmul (Finite huge) (Finite huge) = round64 (2 ^ 1200)"
    by (simp only: fmul.simps)
  also have "\<dots> = PInf" by (simp only: round64_pow2) simp
  finally show ?thesis .
qed

lemma fmul_small:
  "fmul (Finite 0) (Finite 0) = Finite 0"
  "fmul (Finite 0) (Finite 1) = Finite 0"
  "fmul (Finite 1) (Finite 0) = Finite 0"
  "fmul (Finite 1) (Finite 1) = Finite 1"
  using round64_pow2 [of 0] by (simp_all add: round64_zero)

text \<open>
  Claim C7. \<open>CosineSimilarity\<close> returns exactly \<open>0\<close>, and so neither NaN nor an infinity, when
  the two vectors differ in length, when either is empty, and when either has zero magnitude:
  all its components are zero, whatever the other vector holds (NaN and infinities included),
  or more generally the squared norm that the loop computes is zero. It never panics: for
  all vectors it returns a value. (The guard on the norms is what gives \<open>0\<close>: the quotient it
  skips is NaN or an infinity, see \<open>division_by_zero_norm\<close>.)
\<close>

theorem CosineSimilarity_float64_neutral:
  "(length a \<noteq> length b \<or> a = [] \<or> b = [] \<or>
    (\<forall>x\<in>set a. x = Finite 0) \<or> (\<forall>y\<in>set b. y = Finite 0)
      \<longrightarrow> CosineSimilarity_float64 a b = Inr (Finite 0)) \<and>
   (cosine_loop_float64 a b (Finite 0, Finite 0, Finite 0) = Inr (dotProduct, normA, normB) \<and>
    (feq normA (Finite 0) \<or> feq normB (Finite 0))
      \<longrightarrow> CosineSimilarity_float64 a b = Inr (Finite 0)) \<and>
   (\<exists>v. CosineSimilarity_float64 a b = Inr v)"
proof (intro conjI impI)
  assume h: "length a \<noteq> length b \<or> a = [] \<or> b = [] \<or>
    (\<forall>x\<in>set a. x = Finite 0) \<or> (\<forall>y\<in>set b. y = Finite 0)"
  show "CosineSimilarity_float64 a b = Inr (Finite 0)"
  proof (cases "length a \<noteq> length b \<or> length a = 0")
    case True
    then show ?thesis by (simp add: CosineSimilarity_float64_def)
  next
    case False
    then have len: "length a = length b" and ne: "a \<noteq> []" "b \<noteq> []" by auto
    from cosine_loop_float64_total [of a b "(Finite 0, Finite 0, Finite 0)"] len
    obtain d na nb where loop:
      "cosine_loop_float64 a b (Finite 0, Finite 0, Finite 0) = Inr (d, na, nb)"
      by (metis order_refl prod_cases3)
    from h len ne have "(\<forall>x\<in>set a. x = Finite 0) \<or> (\<forall>y\<in>set b. y = Finite 0)" by auto
    then have "na = Finite 0 \<or> nb = Finite 0"
      using cosine_loop_float64_zero_a [OF len _ loop] cosine_loop_float64_zero_b [OF len _ loop]
      by blast
    then have "feq na (Finite 0) \<or> feq nb (Finite 0)" by auto
    with False loop show ?thesis by (simp add: CosineSimilarity_float64_def)
  qed
next
  assume "cosine_loop_float64 a b (Finite 0, Finite 0, Finite 0) = Inr (dotProduct, normA, normB) \<and>
    (feq normA (Finite 0) \<or> feq normB (Finite 0))"
  then show "CosineSimilarity_float64 a b = Inr (Finite 0)"
    by (simp add: CosineSimilarity_float64_def)
next
  show "\<exists>v. CosineSimilarity_float64 a b = Inr v"
  proof (cases "length a \<noteq> length b \<or> length a = 0")
    case True
    then show ?thesis by (simp add: CosineSimilarity_float64_def)
  next
    case False
    then have len: "length a = length b" by simp
    from cosine_loop_float64_total [of a b "(Finite 0, Finite 0, Finite 0)"] len
    obtain d na nb where
      "cosine_loop_float64 a b (Finite 0, Finite 0, Finite 0) = Inr (d, na, nb)"
      by (metis order_refl prod_cases3)
    with False show ?thesis by (simp add: CosineSimilarity_float64_def)
  qed
qed

theorem CosineSimilarity_float64_neutral_witness:
  "CosineSimilarity_float64 [Finite 1, Finite 2] [Finite 3] = Inr (Finite 0) \<and>
   CosineSimilarity_float64 [] [] = Inr (Finite 0) \<and>
   CosineSimilarity_float64 [Finite 0, Finite 0] [Finite 3, NaN] = Inr (Finite 0) \<and>
   CosineSimilarity_float64 [PInf, Finite 4] [Finite 0, Finite 0] = Inr (Finite 0) \<and>
   cosine_loop_float64 [Finite 0] [PInf] (Finite 0, Finite 0, Finite 0) = Inr (NaN, Finite 0, PInf) \<and>
   fdiv NaN (fmul (fsqrt (Finite 0)) (fsqrt PInf)) = NaN"
proof -
  note inst = CosineSimilarity_float64_neutral
  have "CosineSimilarity_float64 [Finite 1, Finite 2] [Finite 3] = Inr (Finite 0)"
    using inst [of "[Finite 1, Finite 2]" "[Finite 3]"] by simp
  moreover have "CosineSimilarity_float64 [] [] = Inr (Finite 0)"
    using inst [of "[]" "[]"] by simp
  moreover have "CosineSimilarity_float64 [Finite 0, Finite 0] [Finite 3, NaN] = Inr (Finite 0)"
    using inst [of "[Finite 0, Finite 0]" "[Finite 3, NaN]"] by simp
  moreover have "CosineSimilarity_float64 [PInf, Finite 4] [Finite 0, Finite 0] = Inr (Finite 0)"
    using inst [of "[PInf, Finite 4]" "[Finite 0, Finite 0]"] by simp
  moreover have "cosine_loop_float64 [Finite 0] [PInf] (Finite 0, Finite 0, Finite 0) =
      Inr (NaN, Finite 0, PInf)"
    by (simp add: round64_zero)
  moreover have "fdiv NaN (fmul (fsqrt (Finite 0)) (fsqrt PInf)) = NaN"
    by (simp add: round64_zero)
  ultimately show ?thesis by blast
qed

text \<open>
  Claim C8, amended. \<open>CosineSimilarity a b\<close> and \<open>CosineSimilarity b a\<close> are the same binary64
  value for all vectors \<open>a\<close> and \<open>b\<close>, and they are equal for \<open>==\<close> whenever that value is not
  NaN.
\<close>

theorem CosineSimilarity_float64_commute:
  "CosineSimilarity_float64 a b = CosineSimilarity_float64 b a \<and>
   (\<forall>v. CosineSimilarity_float64 a b = Inr v \<and> v \<noteq> NaN \<longrightarrow>
        (\<exists>w. CosineSimilarity_float64 b a = Inr w \<and> feq v w))"
proof -
  have same: "CosineSimilarity_float64 a b = CosineSimilarity_float64 b a"
  proof (cases "length a \<noteq> length b \<or> length a = 0")
    case True
    then show ?thesis by (auto simp add: CosineSimilarity_float64_def)
  next
    case False
    then have len: "length a = length b" by simp
    from cosine_loop_float64_total [of a b "(Finite 0, Finite 0, Finite 0)"] len
    obtain dotProduct normA normB where ab:
      "cosine_loop_float64 a b (Finite 0, Finite 0, Finite 0) = Inr (dotProduct, normA, normB)"
      by (metis order_refl prod_cases3)
    from cosine_loop_float64_swap [OF len ab]
    have ba: "cosine_loop_float64 b a (Finite 0, Finite 0, Finite 0) = Inr (dotProduct, normB, normA)" .
    have "fmul (fsqrt normA) (fsqrt normB) = fmul (fsqrt normB) (fsqrt normA)"
      by (rule fmul_commute)
    with False ab ba show ?thesis by (auto simp add: CosineSimilarity_float64_def)
  qed
  moreover have "\<forall>v. CosineSimilarity_float64 a b = Inr v \<and> v \<noteq> NaN \<longrightarrow>
        (\<exists>w. CosineSimilarity_float64 b a = Inr w \<and> feq v w)"
    using same by (auto simp add: feq_refl)
  ultimately show ?thesis by blast
qed

theorem CosineSimilarity_float64_commute_witness:
  "CosineSimilarity_float64 [Finite 1, Finite 0] [Finite 2, Finite 0] = Inr (Finite 1) \<and>
   CosineSimilarity_float64 [Finite 2, Finite 0] [Finite 1, Finite 0] = Inr (Finite 1) \<and>
   feq (Finite 1) (Finite 1) \<and>
   CosineSimilarity_float64 [Finite 1, Finite 2] [Finite 5] =
     CosineSimilarity_float64 [Finite 5] [Finite 1, Finite 2]"
proof -
  have ab: "CosineSimilarity_float64 [Finite 1, Finite 0] [Finite 2, Finite 0] = Inr (Finite 1)"
    by (simp add: CosineSimilarity_float64_def round64_zero round64_small)
  from CosineSimilarity_float64_commute [of "[Finite 1, Finite 0]" "[Finite 2, Finite 0]"] ab
  have ba: "CosineSimilarity_float64 [Finite 2, Finite 0] [Finite 1, Finite 0] = Inr (Finite 1)"
    by simp
  from CosineSimilarity_float64_commute [of "[Finite 1, Finite 2]" "[Finite 5]"] ab ba
  show ?thesis by simp
qed

text \<open>
  The claim as first stated fails where the result is NaN, which \<open>==\<close> never finds equal to
  anything: the squares of \<open>huge\<close> overflow to \<open>+Inf\<close>, so the dot product and both norms are
  \<open>+Inf\<close> and the quotient \<open>Inf / (Inf * Inf)\<close> is NaN, in both orders of the arguments.
\<close>

theorem CosineSimilarity_overflow_counterexample:
  "CosineSimilarity_float64 [Finite huge, Finite 0] [Finite huge, Finite 1] = Inr NaN \<and>
   CosineSimilarity_float64 [Finite huge, Finite 1] [Finite huge, Finite 0] = Inr NaN \<and>
   \<not> feq NaN NaN"
proof -
  have "cosine_loop_float64 [Finite huge, Finite 0] [Finite huge, Finite 1]
          (Finite 0, Finite 0, Finite 0) = Inr (PInf, PInf, PInf)"
    by (simp add: fmul_overflow fmul_small del: fmul.simps(1))
  then have ab: "CosineSimilarity_float64 [Finite huge, Finite 0] [Finite huge, Finite 1] = Inr NaN"
    by (simp add: CosineSimilarity_float64_def)
  have "cosine_loop_float64 [Finite huge, Finite 1] [Finite huge, Finite 0]
          (Finite 0, Finite 0, Finite 0) = Inr (PInf, PInf, PInf)"
    by (simp add: fmul_overflow fmul_small del: fmul.simps(1))
  then have ba: "CosineSimilarity_float64 [Finite huge, Finite 1] [Finite huge, Finite 0] = Inr NaN"
    by (simp add: CosineSimilarity_float64_def)
  from ab ba show ?thesis by simp
qed

section \<open>Evaluation of the concrete cache\<close>

lemma cos_examples:
  "CosineSimilarity [1, 0, 0] [1, 0, 0] = 1"
  "CosineSimilarity [0, 1, 0] [0, 1, 0] = 1"
  "CosineSimilarity [0, 0, 1] [0, 0, 1] = 1"
  "CosineSimilarity [1, 0, 0] [0, 1, 0] = 0"
  "CosineSimilarity [0, 1, 0] [1, 0, 0] = 0"
  "CosineSimilarity [0, 0, 1] [1, 0, 0] = 0"
  "CosineSimilarity [0, 0, 1] [0, 1, 0] = 0"
  "CosineSimilarity [1, 0, 0] [0, 0, 1] = 0"
  "CosineSimilarity [0, 1, 0] [0, 0, 1] = 0"
  "CosineSimilarity [1, 1, 0] [1, 0, 0] = 1 / sqrt 2"
  "CosineSimilarity [1, 1, 0] [0, 1, 0] = 1 / sqrt 2"
  by (simp_all add: CosineSimilarity_def)

lemma example_heap_simps:
  "example_heap 0 = fresh_entry ''A'' ''answer A'' [1, 0, 0] 100 3600"
  "example_heap 1 = fresh_entry ''B'' ''answer B'' [0, 1, 0] 100 3600"
  "example_heap (Suc 0) = fresh_entry ''B'' ''answer B'' [0, 1, 0] 100 3600"
  "example_heap 2 = fresh_entry ''C'' ''answer C'' [0, 0, 1] 300 3600"
  "example_heap 3 = fresh_entry ''A again'' ''new answer A'' [1, 0, 0] 400 3600"
  "example_heap 4 = fresh_entry ''B again'' ''new answer B'' [0, 1, 0] 500 3600"
  by (simp_all add: example_heap_def)

lemma example_A_B_eval:
  "example_A_B = \<lparr>heap = example_heap,
      cache = \<lparr>entries = [0, 1], opts = example_opts, hits = 0, misses = 0\<rparr>,
      goroutines = []\<rparr>"
  by (simp add: example_A_B_def example_system_def sys_Set_def Set_def example_heap_simps
      fresh_entry_def cos_examples example_opts_def)

lemma example_Get_B:
  "sys_Get 200 [0, 1, 0] (9 / 10) example_A_B =
     ((Some 1, 1, True),
      \<lparr>heap = example_heap,
       cache = \<lparr>entries = [0, 1], opts = example_opts, hits = 1, misses = 0\<rparr>,
       goroutines = [1]\<rparr>)"
  by (simp add: example_A_B_eval sys_Get_def Get_def Get_step_def example_heap_simps
      fresh_entry_def cos_examples)

lemma example_B_hit_eval:
  "example_B_hit = \<lparr>heap = updateHitStats 201 1 example_heap,
       cache = \<lparr>entries = [0, 1], opts = example_opts, hits = 1, misses = 0\<rparr>,
       goroutines = []\<rparr>"
  by (simp add: example_B_hit_def example_Get_B run_updateHitStats_def)

lemma example_B_hit_heap:
  "heap example_B_hit 0 = fresh_entry ''A'' ''answer A'' [1, 0, 0] 100 3600"
  "heap example_B_hit 1 =
     (fresh_entry ''B'' ''answer B'' [0, 1, 0] 100 3600)\<lparr>HitCount := 1, LastHitAt := 201\<rparr>"
  "heap example_B_hit (Suc 0) =
     (fresh_entry ''B'' ''answer B'' [0, 1, 0] 100 3600)\<lparr>HitCount := 1, LastHitAt := 201\<rparr>"
  "heap example_B_hit 2 = fresh_entry ''C'' ''answer C'' [0, 0, 1] 300 3600"
  "heap example_B_hit 4 = fresh_entry ''B again'' ''new answer B'' [0, 1, 0] 500 3600"
  by (simp_all add: example_B_hit_eval updateHitStats_def example_heap_simps fresh_entry_def)

lemma example_after_Get_eval:
  "example_after_Get =
     \<lparr>heap = example_heap,
      cache = \<lparr>entries = [0, 1], opts = example_opts, hits = 1, misses = 0\<rparr>,
      goroutines = [1]\<rparr>"
  by (simp add: example_after_Get_def example_Get_B)

section \<open>Cleanup\<close>

lemma Cleanup_loop_filter:
  "Cleanup_loop h now es (active, removed) =
     (active @ filter (\<lambda>e. now < ExpiresAt (h e)) es,
      removed + length (filter (\<lambda>e. \<not> now < ExpiresAt (h e)) es))"
  by (induction es arbitrary: active removed) simp_all

lemma Cleanup_result:
  "Cleanup h now m =
     (length (filter (\<lambda>e. ExpiresAt (h e) \<le> now) (entries m)),
      m\<lparr>entries := filter (\<lambda>e. \<not> ExpiresAt (h e) \<le> now) (entries m)\<rparr>)"
  by (simp add: Cleanup_def Cleanup_loop_filter not_less not_le)

text \<open>
  Claim C5. \<open>Cleanup\<close> at time \<open>now\<close> removes exactly the entries whose \<open>ExpiresAt\<close> is at
  or before \<open>now\<close>: the entries kept are the others, in their order, the objects and the
  rest of the cache are untouched, the returned count is the number of entries removed, and a
  second \<open>Cleanup\<close> at the same time removes nothing and returns \<open>0\<close>.
\<close>

theorem Cleanup_exact:
  "(case Cleanup h now m of (removed, m') \<Rightarrow>
      entries m' = filter (\<lambda>e. \<not> ExpiresAt (h e) \<le> now) (entries m) \<and>
      removed = length (filter (\<lambda>e. ExpiresAt (h e) \<le> now) (entries m)) \<and>
      removed = length (entries m) - length (entries m') \<and>
      opts m' = opts m \<and> hits m' = hits m \<and> misses m' = misses m \<and>
      Cleanup h now m' = (0, m'))"
proof -
  have "length (filter (\<lambda>e. ExpiresAt (h e) \<le> now) (entries m)) =
        length (entries m) - length (filter (\<lambda>e. \<not> ExpiresAt (h e) \<le> now) (entries m))"
    using sum_length_filter_compl [of "\<lambda>e. ExpiresAt (h e) \<le> now" "entries m"] by simp
  then show ?thesis by (simp add: Cleanup_result)
qed

theorem Cleanup_exact_witness:
  "Cleanup example_heap 3700 (cache (sys_Set 2 example_A_B)) =
     (1, (cache (sys_Set 2 example_A_B))\<lparr>entries := [2]\<rparr>) \<and>
   Cleanup example_heap 3700 ((cache (sys_Set 2 example_A_B))\<lparr>entries := [2]\<rparr>) =
     (0, (cache (sys_Set 2 example_A_B))\<lparr>entries := [2]\<rparr>)"
  using Cleanup_exact [where h = example_heap and now = 3700 and m = "cache (sys_Set 2 example_A_B)"]
  by (simp add: example_A_B_eval sys_Set_def Set_def example_heap_simps fresh_entry_def
      cos_examples example_opts_def evictOldest_def Cleanup_def)

section \<open>Set and eviction\<close>

lemma find_duplicate_None:
  "find_duplicate h emb es i = None \<longleftrightarrow>
     (\<forall>e\<in>set es. \<not> CosineSimilarity emb (Embedding (h e)) > 99 / 100)"
  by (induction es arbitrary: i) auto

lemma find_duplicate_Some:
  "find_duplicate h emb es i = Some k \<Longrightarrow>
     i \<le> k \<and> k - i < length es \<and>
     CosineSimilarity emb (Embedding (h (es ! (k - i)))) > 99 / 100 \<and>
     (\<forall>j<k - i. \<not> CosineSimilarity emb (Embedding (h (es ! j))) > 99 / 100)"
proof (induction es arbitrary: i)
  case Nil
  then show ?case by simp
next
  case (Cons e es)
  show ?case
  proof (cases "CosineSimilarity emb (Embedding (h e)) > 99 / 100")
    case True
    with Cons.prems show ?thesis by simp
  next
    case False
    with Cons.prems have rec: "find_duplicate h emb es (Suc i) = Some k" by simp
    from Cons.IH [OF rec] have ik: "Suc i \<le> k" and lt: "k - Suc i < length es"
      and dup: "CosineSimilarity emb (Embedding (h (es ! (k - Suc i)))) > 99 / 100"
      and first: "\<forall>j<k - Suc i. \<not> CosineSimilarity emb (Embedding (h (es ! j))) > 99 / 100"
      by auto
    from ik have ki: "k - i = Suc (k - Suc i)" by simp
    have "\<forall>j<k - i. \<not> CosineSimilarity emb (Embedding (h ((e # es) ! j))) > 99 / 100"
    proof (intro allI impI)
      fix j assume "j < k - i"
      then show "\<not> CosineSimilarity emb (Embedding (h ((e # es) ! j))) > 99 / 100"
        using False first ki by (cases j) auto
    qed
    with ik lt dup ki show ?thesis by simp
  qed
qed

lemma Set_duplicate:
  assumes "\<exists>e\<in>set (entries m). CosineSimilarity (Embedding (h entry)) (Embedding (h e)) > 99 / 100"
  shows "\<exists>i<length (entries m).
           CosineSimilarity (Embedding (h entry)) (Embedding (h (entries m ! i))) > 99 / 100 \<and>
           (\<forall>j<i. \<not> CosineSimilarity (Embedding (h entry)) (Embedding (h (entries m ! j))) > 99 / 100) \<and>
           Set h entry m = m\<lparr>entries := (entries m)[i := entry]\<rparr>"
proof -
  from assms have "find_duplicate h (Embedding (h entry)) (entries m) 0 \<noteq> None"
    by (simp add: find_duplicate_None)
  then obtain i where i: "find_duplicate h (Embedding (h entry)) (entries m) 0 = Some i" by auto
  from find_duplicate_Some [OF i] i show ?thesis by (auto simp add: Set_def)
qed

lemma oldest_loop_spec:
  "oldest_loop h es i (k, t) = (k', t') \<Longrightarrow>
     (\<forall>e\<in>set es. t' \<le> LastHitAt (h e)) \<and>
     ((k' = k \<and> t' = t) \<or>
      (i \<le> k' \<and> k' - i < length es \<and> t' = LastHitAt (h (es ! (k' - i))) \<and> t' < t \<and>
       (\<forall>j<k' - i. t' < LastHitAt (h (es ! j)))))"
proof (induction es arbitrary: i k t)
  case Nil
  then show ?case by simp
next
  case (Cons e es)
  show ?case
  proof (cases "LastHitAt (h e) < t")
    case True
    with Cons.prems have rec: "oldest_loop h es (Suc i) (i, LastHitAt (h e)) = (k', t')" by simp
    from Cons.IH [OF rec] have le: "\<forall>x\<in>set es. t' \<le> LastHitAt (h x)"
      and alt: "(k' = i \<and> t' = LastHitAt (h e)) \<or>
        (Suc i \<le> k' \<and> k' - Suc i < length es \<and> t' = LastHitAt (h (es ! (k' - Suc i))) \<and>
         t' < LastHitAt (h e) \<and> (\<forall>j<k' - Suc i. t' < LastHitAt (h (es ! j))))"
      by auto
    from alt show ?thesis
    proof
      assume "k' = i \<and> t' = LastHitAt (h e)"
      with le True show ?thesis by simp
    next
      assume a: "Suc i \<le> k' \<and> k' - Suc i < length es \<and> t' = LastHitAt (h (es ! (k' - Suc i))) \<and>
         t' < LastHitAt (h e) \<and> (\<forall>j<k' - Suc i. t' < LastHitAt (h (es ! j)))"
      then have "Suc i \<le> k'" by blast
      then have ki: "k' - i = Suc (k' - Suc i)" by arith
      have "\<forall>j<k' - i. t' < LastHitAt (h ((e # es) ! j))"
      proof (intro allI impI)
        fix j assume "j < k' - i"
        then show "t' < LastHitAt (h ((e # es) ! j))" using a ki by (cases j) auto
      qed
      with a ki le True show ?thesis by auto
    qed
  next
    case False
    with Cons.prems have rec: "oldest_loop h es (Suc i) (k, t) = (k', t')" by simp
    from Cons.IH [OF rec] have le: "\<forall>x\<in>set es. t' \<le> LastHitAt (h x)"
      and alt: "(k' = k \<and> t' = t) \<or>
        (Suc i \<le> k' \<and> k' - Suc i < length es \<and> t' = LastHitAt (h (es ! (k' - Suc i))) \<and>
         t' < t \<and> (\<forall>j<k' - Suc i. t' < LastHitAt (h (es ! j))))"
      by auto
    from alt show ?thesis
    proof
      assume "k' = k \<and> t' = t"
      with le False show ?thesis by auto
    next
      assume a: "Suc i \<le> k' \<and> k' - Suc i < length es \<and> t' = LastHitAt (h (es ! (k' - Suc i))) \<and>
         t' < t \<and> (\<forall>j<k' - Suc i. t' < LastHitAt (h (es ! j)))"
      then have "Suc i \<le> k'" by blast
      then have ki: "k' - i = Suc (k' - Suc i)" by arith
      have "\<forall>j<k' - i. t' < LastHitAt (h ((e # es) ! j))"
      proof (intro allI impI)
        fix j assume "j < k' - i"
        then show "t' < LastHitAt (h ((e # es) ! j))" using a ki False by (cases j) auto
      qed
      with a ki le False show ?thesis by auto
    qed
  qed
qed

lemma mset_swap_remove:
  assumes "i < length es"
  shows "mset (butlast (es[i := last es])) = mset es - {#es ! i#}"
proof -
  from assms have ne: "es \<noteq> []" by auto
  then obtain bs l where es: "es = bs @ [l]" by (metis append_butlast_last_id)
  show ?thesis
  proof (cases "i < length bs")
    case True
    then have "mset (butlast (es[i := last es])) = mset (bs[i := l])"
      by (simp add: es list_update_append)
    also have "\<dots> = mset bs - {#bs ! i#} + {#l#}" using True by (simp add: mset_update)
    also have "\<dots> = mset es - {#es ! i#}" using True by (simp add: es nth_append)
    finally show ?thesis .
  next
    case False
    with assms have "i = length bs" by (simp add: es)
    then show ?thesis by (simp add: es)
  qed
qed

lemma evictOldest_spec:
  assumes "entries m \<noteq> []"
  shows "\<exists>i<length (entries m).
           (\<forall>j<length (entries m). LastHitAt (h (entries m ! i)) \<le> LastHitAt (h (entries m ! j))) \<and>
           (\<forall>j<i. LastHitAt (h (entries m ! i)) < LastHitAt (h (entries m ! j))) \<and>
           evictOldest h m = m\<lparr>entries := butlast ((entries m)[i := last (entries m)])\<rparr>"
proof -
  let ?es = "entries m"
  obtain k' t' where loop: "oldest_loop h ?es 0 (0, LastHitAt (h (?es ! 0))) = (k', t')"
    by (cases "oldest_loop h ?es 0 (0, LastHitAt (h (?es ! 0)))") auto
  from oldest_loop_spec [OF loop]
  have le: "\<forall>e\<in>set ?es. t' \<le> LastHitAt (h e)"
    and alt: "(k' = 0 \<and> t' = LastHitAt (h (?es ! 0))) \<or>
      (k' < length ?es \<and> t' = LastHitAt (h (?es ! k')) \<and> (\<forall>j<k'. t' < LastHitAt (h (?es ! j))))"
    by auto
  from alt assms have k: "k' < length ?es" and t: "t' = LastHitAt (h (?es ! k'))"
    and first: "\<forall>j<k'. t' < LastHitAt (h (?es ! j))"
    by auto
  have ev: "evictOldest h m = m\<lparr>entries := butlast (?es[k' := last ?es])\<rparr>"
    using assms loop by (simp add: evictOldest_def butlast_conv_take last_conv_nth)
  from le t have "\<forall>j<length ?es. LastHitAt (h (?es ! k')) \<le> LastHitAt (h (?es ! j))" by simp
  with k t first ev show ?thesis by blast
qed

lemma distinct_embeddings_snoc:
  "distinct_embeddings h (ps @ [p]) \<longleftrightarrow>
     distinct_embeddings h ps \<and> (\<forall>q\<in>set ps. \<not> near_duplicate h p q)"
  by (induction ps) (auto simp add: cosine_sym [of "Embedding (h p)"])

lemma Set_all_snoc: "Set_all h (ps @ [p]) m = Set h p (Set_all h ps m)"
  by (induction ps arbitrary: m) simp_all

lemma Set_no_duplicate:
  assumes "\<forall>e\<in>set (entries m). \<not> near_duplicate h entry e"
  shows "Set h entry m =
     (if MaxSize (opts m) \<le> int (length (entries m))
      then (evictOldest h m)\<lparr>entries := entries (evictOldest h m) @ [entry]\<rparr>
      else m\<lparr>entries := entries m @ [entry]\<rparr>)"
proof -
  from assms have "find_duplicate h (Embedding (h entry)) (entries m) 0 = None"
    by (simp add: find_duplicate_None)
  then show ?thesis by (simp add: Set_def Let_def)
qed

lemma Set_all_below_capacity:
  "distinct_embeddings h ps \<Longrightarrow> entries m = [] \<Longrightarrow> int (length ps) \<le> MaxSize (opts m) \<Longrightarrow>
   Set_all h ps m = m\<lparr>entries := ps\<rparr>"
proof (induction ps rule: rev_induct)
  case Nil
  then show ?case by simp
next
  case (snoc p ps)
  from snoc.prems have d: "distinct_embeddings h ps" and nd: "\<forall>q\<in>set ps. \<not> near_duplicate h p q"
    by (simp_all add: distinct_embeddings_snoc)
  from snoc.prems have len: "int (length ps) < MaxSize (opts m)" by simp
  with snoc.IH d snoc.prems have prev: "Set_all h ps m = m\<lparr>entries := ps\<rparr>" by simp
  have "Set h p (m\<lparr>entries := ps\<rparr>) = m\<lparr>entries := ps @ [p]\<rparr>"
    using nd len by (simp add: Set_no_duplicate)
  with prev show ?case by (simp add: Set_all_snoc)
qed

lemma Set_at_capacity:
  assumes nd: "\<forall>e\<in>set (entries m). \<not> near_duplicate h entry e"
    and full: "MaxSize (opts m) \<le> int (length (entries m))" and ne: "entries m \<noteq> []"
  shows "\<exists>i<length (entries m).
           (\<forall>j<length (entries m). LastHitAt (h (entries m ! i)) \<le> LastHitAt (h (entries m ! j))) \<and>
           (\<forall>j<i. LastHitAt (h (entries m ! i)) < LastHitAt (h (entries m ! j))) \<and>
           Set h entry m = m\<lparr>entries := butlast ((entries m)[i := last (entries m)]) @ [entry]\<rparr>"
proof -
  from evictOldest_spec [OF ne, of h] obtain i where i: "i < length (entries m)"
    and least: "\<forall>j<length (entries m). LastHitAt (h (entries m ! i)) \<le> LastHitAt (h (entries m ! j))"
    and first: "\<forall>j<i. LastHitAt (h (entries m ! i)) < LastHitAt (h (entries m ! j))"
    and ev: "evictOldest h m = m\<lparr>entries := butlast ((entries m)[i := last (entries m)])\<rparr>"
    by blast
  have "Set h entry m = m\<lparr>entries := butlast ((entries m)[i := last (entries m)]) @ [entry]\<rparr>"
    using nd full ev by (simp add: Set_no_duplicate)
  with i least first show ?thesis by blast
qed

text \<open>
  Claim C3, amended. For every capacity \<open>N \<ge> 1\<close>: storing \<open>N\<close> entries with pairwise
  distinct embeddings (no pair with similarity above \<open>0.99\<close>) into a new cache of capacity
  \<open>N\<close> keeps all of them, and storing one more such entry leaves \<open>Size \<le> N\<close> with exactly
  one previously stored entry removed: the stored entries are the former ones without one of
  them, plus the new one.
\<close>

theorem Set_capacity_bound:
  assumes new: "NewMemoryCache (Some os) = Some m0"
    and cap: "MaxSize os = int N" and pos: "1 \<le> N"
    and len: "length ps = N"
    and dist: "distinct_embeddings h (ps @ [q])"
  shows "entries (Set_all h ps m0) = ps \<and> Size (Set_all h ps m0) = N \<and>
         Size (Set h q (Set_all h ps m0)) \<le> N \<and>
         (\<exists>v. v \<in># mset (entries (Set_all h ps m0)) \<and>
              mset (entries (Set h q (Set_all h ps m0))) =
                mset (entries (Set_all h ps m0)) - {#v#} + {#q#})"
proof -
  from new have m0: "entries m0 = []" "opts m0 = os"
    by (auto simp add: NewMemoryCache_def Let_def split: if_splits)
  from dist have d: "distinct_embeddings h ps" and nd: "\<forall>e\<in>set ps. \<not> near_duplicate h q e"
    by (simp_all add: distinct_embeddings_snoc)
  have filled: "Set_all h ps m0 = m0\<lparr>entries := ps\<rparr>"
    using d m0 cap len by (simp add: Set_all_below_capacity)
  let ?m = "m0\<lparr>entries := ps\<rparr>"
  from pos len have ne: "entries ?m \<noteq> []" by auto
  from Set_at_capacity [of ?m h q] nd ne m0 cap len
  obtain i where i: "i < length ps"
    and st: "Set h q ?m = ?m\<lparr>entries := butlast (ps[i := last ps]) @ [q]\<rparr>"
    by auto
  have "mset (entries (Set h q ?m)) = mset ps - {#ps ! i#} + {#q#}"
    using st mset_swap_remove [OF i] by simp
  moreover have "ps ! i \<in># mset ps" using i by simp
  moreover have "Size (Set h q ?m) = N"
    using st i len by (simp add: Size_def)
  ultimately show ?thesis using filled len by (auto simp add: Size_def)
qed

theorem Set_capacity_bound_witness:
  "NewMemoryCache (Some example_opts) = Some (cache example_system) \<and>
   MaxSize example_opts = int 2 \<and> distinct_embeddings example_heap ([0, 1] @ [2]) \<and>
   entries (Set_all example_heap [0, 1] (cache example_system)) = [0, 1] \<and>
   Size (Set example_heap 2 (Set_all example_heap [0, 1] (cache example_system))) \<le> 2 \<and>
   (\<exists>v. v \<in># mset (entries (Set_all example_heap [0, 1] (cache example_system))) \<and>
        mset (entries (Set example_heap 2 (Set_all example_heap [0, 1] (cache example_system)))) =
          mset (entries (Set_all example_heap [0, 1] (cache example_system))) - {#v#} + {#2#})"
proof -
  have new: "NewMemoryCache (Some example_opts) = Some (cache example_system)"
    by (simp add: NewMemoryCache_def example_system_def example_opts_def)
  have cap: "MaxSize example_opts = int 2" by (simp add: example_opts_def)
  have dist: "distinct_embeddings example_heap ([0, 1] @ [2])"
    by (simp add: example_heap_simps fresh_entry_def cos_examples)
  have pos: "1 \<le> (2::nat)" and len: "length [0, 1::nat] = 2" by simp_all
  from Set_capacity_bound [OF new cap pos len dist] new cap dist show ?thesis by blast
qed

text \<open>
  The claim as first stated fails for capacity \<open>0\<close>: \<open>evictOldest\<close> returns at once on an
  empty cache and \<open>Set\<close> appends all the same, so after storing \<open>0\<close> entries and then one,
  \<open>Size\<close> is \<open>1\<close> and nothing has been removed.
\<close>

theorem Set_capacity_zero_counterexample:
  "NewMemoryCache (Some capacity_zero) = Some empty_cache_zero \<and>
   MaxSize capacity_zero = 0 \<and> distinct_embeddings example_heap ([] @ [0]) \<and>
   Size (Set_all example_heap [] empty_cache_zero) = 0 \<and>
   entries (Set example_heap 0 (Set_all example_heap [] empty_cache_zero)) = [0] \<and>
   \<not> Size (Set example_heap 0 (Set_all example_heap [] empty_cache_zero)) \<le> 0"
  by (simp add: NewMemoryCache_def capacity_zero_def empty_cache_zero_def Set_def
      evictOldest_def Size_def)

text \<open>
  Claim C4. When the cache holds an entry whose embedding has similarity above \<open>0.99\<close> to
  the new entry's embedding, \<open>Set\<close> overwrites the first such stored entry in place, changes
  nothing else, and \<open>Size\<close> is unchanged.
\<close>

theorem Set_updates_in_place:
  assumes "\<exists>e\<in>set (entries m). near_duplicate h entry e"
  shows "\<exists>i<length (entries m).
           near_duplicate h entry (entries m ! i) \<and>
           (\<forall>j<i. \<not> near_duplicate h entry (entries m ! j)) \<and>
           Set h entry m = m\<lparr>entries := (entries m)[i := entry]\<rparr> \<and>
           Size (Set h entry m) = Size m"
proof -
  from Set_duplicate [OF assms] obtain i where "i < length (entries m)"
    "near_duplicate h entry (entries m ! i)"
    "\<forall>j<i. \<not> near_duplicate h entry (entries m ! j)"
    "Set h entry m = m\<lparr>entries := (entries m)[i := entry]\<rparr>"
    by blast
  moreover from this have "Size (Set h entry m) = Size m" by (simp add: Size_def)
  ultimately show ?thesis by blast
qed

theorem Set_updates_in_place_witness:
  "(\<exists>e\<in>set (entries (cache example_A_B)). near_duplicate example_heap 3 e) \<and>
   Set example_heap 3 (cache example_A_B) = (cache example_A_B)\<lparr>entries := [3, 1]\<rparr> \<and>
   Size (Set example_heap 3 (cache example_A_B)) = Size (cache example_A_B)"
proof -
  have dup: "\<exists>e\<in>set (entries (cache example_A_B)). near_duplicate example_heap 3 e"
    by (simp add: example_A_B_eval example_heap_simps fresh_entry_def cos_examples)
  have st: "Set example_heap 3 (cache example_A_B) = (cache example_A_B)\<lparr>entries := [3, 1]\<rparr>"
    by (simp add: example_A_B_eval Set_def example_heap_simps fresh_entry_def cos_examples)
  from Set_updates_in_place [OF dup]
  have "Size (Set example_heap 3 (cache example_A_B)) = Size (cache example_A_B)" by blast
  with dup st show ?thesis by blast
qed

text \<open>
  Claim C10. When \<open>Set\<close> finds a near-duplicate, the slot then holds the pointer to the new
  entry: every field of the stored entry is the new entry's, its \<open>HitCount\<close> and \<open>LastHitAt\<close>
  included, and nothing of the previous entry is kept. A new entry that has never been hit
  thus stands in that slot with the earliest last-hit time of the cache (last-hit times being
  zero or later), so it is a candidate for the next eviction however often the entry it
  replaced had been hit.
\<close>

theorem Set_discards_hit_stats:
  assumes "\<exists>e\<in>set (entries m). near_duplicate h entry e"
  shows "\<exists>i<length (entries m).
           near_duplicate h entry (entries m ! i) \<and>
           entries (Set h entry m) ! i = entry \<and>
           HitCount (h (entries (Set h entry m) ! i)) = HitCount (h entry) \<and>
           LastHitAt (h (entries (Set h entry m) ! i)) = LastHitAt (h entry) \<and>
           h (entries (Set h entry m) ! i) = h entry \<and>
           (LastHitAt (h entry) = 0 \<and> (\<forall>e\<in>set (entries m). 0 \<le> LastHitAt (h e)) \<longrightarrow>
              (\<forall>j<length (entries (Set h entry m)).
                 LastHitAt (h (entries (Set h entry m) ! i))
                   \<le> LastHitAt (h (entries (Set h entry m) ! j))))"
proof -
  from Set_duplicate [OF assms] obtain i where i: "i < length (entries m)"
    and dup: "near_duplicate h entry (entries m ! i)"
    and st: "Set h entry m = m\<lparr>entries := (entries m)[i := entry]\<rparr>"
    by blast
  from i st have at: "entries (Set h entry m) ! i = entry" by simp
  have "LastHitAt (h entry) = 0 \<and> (\<forall>e\<in>set (entries m). 0 \<le> LastHitAt (h e)) \<longrightarrow>
              (\<forall>j<length (entries (Set h entry m)).
                 LastHitAt (h (entries (Set h entry m) ! i))
                   \<le> LastHitAt (h (entries (Set h entry m) ! j)))"
  proof (intro impI allI)
    fix j
    assume a: "LastHitAt (h entry) = 0 \<and> (\<forall>e\<in>set (entries m). 0 \<le> LastHitAt (h e))"
      and j: "j < length (entries (Set h entry m))"
    from j st have jm: "j < length (entries m)" by simp
    show "LastHitAt (h (entries (Set h entry m) ! i)) \<le> LastHitAt (h (entries (Set h entry m) ! j))"
    proof (cases "j = i")
      case True
      then show ?thesis by simp
    next
      case False
      with st jm have "entries (Set h entry m) ! j = entries m ! j" by simp
      moreover from jm a have "0 \<le> LastHitAt (h (entries m ! j))" by simp
      ultimately show ?thesis using at a by simp
    qed
  qed
  with i dup at show ?thesis by auto
qed

theorem Set_discards_hit_stats_witness:
  "(\<exists>e\<in>set (entries (cache example_B_hit)). near_duplicate (heap example_B_hit) 4 e) \<and>
   HitCount (heap example_B_hit (entries (cache example_B_hit) ! 1)) = 1 \<and>
   LastHitAt (heap example_B_hit (entries (cache example_B_hit) ! 1)) = 201 \<and>
   entries (cache (sys_Set 4 example_B_hit)) = [0, 4] \<and>
   HitCount (heap (sys_Set 4 example_B_hit) (entries (cache (sys_Set 4 example_B_hit)) ! 1)) = 0 \<and>
   LastHitAt (heap (sys_Set 4 example_B_hit) (entries (cache (sys_Set 4 example_B_hit)) ! 1)) = 0"
proof -
  have before: "entries (cache example_B_hit) = [0, 1]" by (simp add: example_B_hit_eval)
  have dup: "\<exists>e\<in>set (entries (cache example_B_hit)). near_duplicate (heap example_B_hit) 4 e"
    by (simp add: before example_B_hit_heap fresh_entry_def cos_examples)
  have st: "entries (cache (sys_Set 4 example_B_hit)) = [0, 4]"
    by (simp add: sys_Set_def Set_def before example_B_hit_heap fresh_entry_def cos_examples)
  have hp: "heap (sys_Set 4 example_B_hit) = heap example_B_hit" by (simp add: sys_Set_def)
  from Set_discards_hit_stats [OF dup] dup before st hp show ?thesis
    by (simp add: example_B_hit_heap fresh_entry_def)
qed

text \<open>
  Claim C2. \<open>evictOldest\<close> removes an entry whose \<open>LastHitAt\<close> is the earliest of all
  (overwriting it with the last entry and dropping the last slot), and \<open>Set\<close> calls it
  before appending when there is no near-duplicate and the cache is full. With last-hit times that
  are zero for never-hit entries and later than zero for hit ones, the entry removed is a
  never-hit one whenever there is one. In particular, with capacity 2, never-hit \<open>a\<close> and
  once-hit \<open>b\<close> stored, storing a third distinct entry \<open>c\<close> evicts \<open>a\<close> and keeps \<open>b\<close>.
\<close>

theorem evictOldest_earliest_last_hit:
  "(entries m \<noteq> [] \<longrightarrow>
      (\<exists>i<length (entries m).
         (\<forall>j<length (entries m). LastHitAt (h (entries m ! i)) \<le> LastHitAt (h (entries m ! j))) \<and>
         evictOldest h m = m\<lparr>entries := butlast ((entries m)[i := last (entries m)])\<rparr> \<and>
         mset (entries (evictOldest h m)) = mset (entries m) - {#entries m ! i#} \<and>
         ((\<forall>e\<in>set (entries m). 0 \<le> LastHitAt (h e)) \<and> (\<exists>e\<in>set (entries m). LastHitAt (h e) = 0)
            \<longrightarrow> LastHitAt (h (entries m ! i)) = 0))) \<and>
   ((\<forall>e\<in>set (entries m). \<not> near_duplicate h c e) \<and> MaxSize (opts m) \<le> int (length (entries m))
      \<longrightarrow> Set h c m = (evictOldest h m)\<lparr>entries := entries (evictOldest h m) @ [c]\<rparr>) \<and>
   (entries m = [a, b] \<and> MaxSize (opts m) = 2 \<and> LastHitAt (h a) = 0 \<and> 0 < LastHitAt (h b) \<and>
    \<not> near_duplicate h c a \<and> \<not> near_duplicate h c b
      \<longrightarrow> entries (Set h c m) = [b, c])"
proof (intro conjI impI)
  assume ne: "entries m \<noteq> []"
  from evictOldest_spec [OF ne, of h] obtain i where i: "i < length (entries m)"
    and least: "\<forall>j<length (entries m). LastHitAt (h (entries m ! i)) \<le> LastHitAt (h (entries m ! j))"
    and ev: "evictOldest h m = m\<lparr>entries := butlast ((entries m)[i := last (entries m)])\<rparr>"
    by blast
  have ms: "mset (entries (evictOldest h m)) = mset (entries m) - {#entries m ! i#}"
    using ev mset_swap_remove [OF i] by simp
  have zero: "(\<forall>e\<in>set (entries m). 0 \<le> LastHitAt (h e)) \<and> (\<exists>e\<in>set (entries m). LastHitAt (h e) = 0)
            \<longrightarrow> LastHitAt (h (entries m ! i)) = 0"
  proof
    assume a: "(\<forall>e\<in>set (entries m). 0 \<le> LastHitAt (h e)) \<and> (\<exists>e\<in>set (entries m). LastHitAt (h e) = 0)"
    then obtain e where "e \<in> set (entries m)" "LastHitAt (h e) = 0" by blast
    then obtain j where "j < length (entries m)" "LastHitAt (h (entries m ! j)) = 0"
      by (auto simp add: in_set_conv_nth)
    with least have "LastHitAt (h (entries m ! i)) \<le> 0" by metis
    moreover from a i have "0 \<le> LastHitAt (h (entries m ! i))" by simp
    ultimately show "LastHitAt (h (entries m ! i)) = 0" by simp
  qed
  from i least ev ms zero
  show "\<exists>i<length (entries m).
         (\<forall>j<length (entries m). LastHitAt (h (entries m ! i)) \<le> LastHitAt (h (entries m ! j))) \<and>
         evictOldest h m = m\<lparr>entries := butlast ((entries m)[i := last (entries m)])\<rparr> \<and>
         mset (entries (evictOldest h m)) = mset (entries m) - {#entries m ! i#} \<and>
         ((\<forall>e\<in>set (entries m). 0 \<le> LastHitAt (h e)) \<and> (\<exists>e\<in>set (entries m). LastHitAt (h e) = 0)
            \<longrightarrow> LastHitAt (h (entries m ! i)) = 0)"
    by blast
next
  assume "(\<forall>e\<in>set (entries m). \<not> near_duplicate h c e) \<and> MaxSize (opts m) \<le> int (length (entries m))"
  then show "Set h c m = (evictOldest h m)\<lparr>entries := entries (evictOldest h m) @ [c]\<rparr>"
    by (simp add: Set_no_duplicate)
next
  assume a: "entries m = [a, b] \<and> MaxSize (opts m) = 2 \<and> LastHitAt (h a) = 0 \<and> 0 < LastHitAt (h b) \<and>
    \<not> near_duplicate h c a \<and> \<not> near_duplicate h c b"
  then have "Set h c m = (evictOldest h m)\<lparr>entries := entries (evictOldest h m) @ [c]\<rparr>"
    by (simp add: Set_no_duplicate)
  moreover from a have "entries (evictOldest h m) = [b]"
    by (simp add: evictOldest_def)
  ultimately show "entries (Set h c m) = [b, c]" by simp
qed

theorem evictOldest_earliest_last_hit_witness:
  "entries (cache example_B_hit) = [0, 1] \<and> MaxSize (opts (cache example_B_hit)) = 2 \<and>
   LastHitAt (heap example_B_hit 0) = 0 \<and> 0 < LastHitAt (heap example_B_hit 1) \<and>
   \<not> near_duplicate (heap example_B_hit) 2 0 \<and> \<not> near_duplicate (heap example_B_hit) 2 1 \<and>
   entries (Set (heap example_B_hit) 2 (cache example_B_hit)) = [1, 2]"
proof -
  have stored: "entries (cache example_B_hit) = [0, 1]"
    and cap: "MaxSize (opts (cache example_B_hit)) = 2"
    by (simp_all add: example_B_hit_eval example_opts_def)
  have hit: "LastHitAt (heap example_B_hit 0) = 0" "0 < LastHitAt (heap example_B_hit 1)"
    by (simp_all add: example_B_hit_heap fresh_entry_def)
  have nd: "\<not> near_duplicate (heap example_B_hit) 2 0" "\<not> near_duplicate (heap example_B_hit) 2 1"
    by (simp_all add: example_B_hit_heap fresh_entry_def cos_examples)
  from evictOldest_earliest_last_hit [where h = "heap example_B_hit" and m = "cache example_B_hit"
      and a = 0 and b = 1 and c = 2] stored cap hit nd
  have "entries (Set (heap example_B_hit) 2 (cache example_B_hit)) = [1, 2]" by blast
  with stored cap hit nd show ?thesis by blast
qed

section \<open>Get\<close>

lemma Get_step_cases:
  "Get_step h now emb thr (b, s) e =
     (if qualifies h now emb thr e \<and> s < CosineSimilarity emb (Embedding (h e))
      then (Some e, CosineSimilarity emb (Embedding (h e))) else (b, s))"
  by (simp add: Get_step_def Let_def)

lemma Get_scan_inv:
  "foldl (Get_step h now emb thr) (None, 0) es = (b, s) \<Longrightarrow>
     0 \<le> s \<and>
     (\<forall>e\<in>set es. qualifies h now emb thr e \<longrightarrow> CosineSimilarity emb (Embedding (h e)) \<le> s) \<and>
     (case b of None \<Rightarrow> s = 0
      | Some p \<Rightarrow> 0 < s \<and>
          (\<exists>i<length es. es ! i = p \<and> qualifies h now emb thr p \<and>
             s = CosineSimilarity emb (Embedding (h p)) \<and>
             (\<forall>j<i. qualifies h now emb thr (es ! j) \<longrightarrow>
                    CosineSimilarity emb (Embedding (h (es ! j))) < s)))"
proof (induction es arbitrary: b s rule: rev_induct)
  case Nil
  then show ?case by simp
next
  case (snoc x xs)
  obtain b0 s0 where prev: "foldl (Get_step h now emb thr) (None, 0) xs = (b0, s0)"
    by (cases "foldl (Get_step h now emb thr) (None, 0) xs") auto
  from snoc.IH [OF prev] have s0: "0 \<le> s0"
    and mx: "\<forall>e\<in>set xs. qualifies h now emb thr e \<longrightarrow> CosineSimilarity emb (Embedding (h e)) \<le> s0"
    and bst: "case b0 of None \<Rightarrow> s0 = 0
      | Some p \<Rightarrow> 0 < s0 \<and>
          (\<exists>i<length xs. xs ! i = p \<and> qualifies h now emb thr p \<and>
             s0 = CosineSimilarity emb (Embedding (h p)) \<and>
             (\<forall>j<i. qualifies h now emb thr (xs ! j) \<longrightarrow>
                    CosineSimilarity emb (Embedding (h (xs ! j))) < s0))"
    by auto
  let ?sx = "CosineSimilarity emb (Embedding (h x))"
  from snoc.prems prev have step: "Get_step h now emb thr (b0, s0) x = (b, s)" by simp
  show ?case
  proof (cases "qualifies h now emb thr x \<and> s0 < ?sx")
    case True
    with step have bs: "b = Some x" "s = ?sx" by (simp_all add: Get_step_cases)
    have "\<forall>j<length xs. qualifies h now emb thr ((xs @ [x]) ! j) \<longrightarrow>
            CosineSimilarity emb (Embedding (h ((xs @ [x]) ! j))) < ?sx"
    proof (intro allI impI)
      fix j assume j: "j < length xs" and q: "qualifies h now emb thr ((xs @ [x]) ! j)"
      from j have "(xs @ [x]) ! j = xs ! j" "xs ! j \<in> set xs" by (simp_all add: nth_append)
      with q mx True show "CosineSimilarity emb (Embedding (h ((xs @ [x]) ! j))) < ?sx"
        by fastforce
    qed
    then have "\<exists>i<length (xs @ [x]). (xs @ [x]) ! i = x \<and> qualifies h now emb thr x \<and>
             ?sx = CosineSimilarity emb (Embedding (h x)) \<and>
             (\<forall>j<i. qualifies h now emb thr ((xs @ [x]) ! j) \<longrightarrow>
                    CosineSimilarity emb (Embedding (h ((xs @ [x]) ! j))) < ?sx)"
      using True by (intro exI [of _ "length xs"]) simp
    moreover have "\<forall>e\<in>set (xs @ [x]). qualifies h now emb thr e \<longrightarrow>
        CosineSimilarity emb (Embedding (h e)) \<le> ?sx"
      using mx True by fastforce
    moreover have "0 < ?sx" using s0 True by simp
    ultimately show ?thesis using bs by simp
  next
    case False
    with step have bs: "b = b0" "s = s0" by (auto simp add: Get_step_cases split: if_splits)
    have mx': "\<forall>e\<in>set (xs @ [x]). qualifies h now emb thr e \<longrightarrow>
        CosineSimilarity emb (Embedding (h e)) \<le> s0"
      using mx False by fastforce
    show ?thesis
    proof (cases b0)
      case None
      with bst mx' s0 bs show ?thesis by simp
    next
      case (Some p)
      with bst obtain i where i: "i < length xs" "xs ! i = p" "qualifies h now emb thr p"
        "s0 = CosineSimilarity emb (Embedding (h p))"
        "\<forall>j<i. qualifies h now emb thr (xs ! j) \<longrightarrow> CosineSimilarity emb (Embedding (h (xs ! j))) < s0"
        and pos: "0 < s0"
        by auto
      have "\<exists>i<length (xs @ [x]). (xs @ [x]) ! i = p \<and> qualifies h now emb thr p \<and>
             s0 = CosineSimilarity emb (Embedding (h p)) \<and>
             (\<forall>j<i. qualifies h now emb thr ((xs @ [x]) ! j) \<longrightarrow>
                    CosineSimilarity emb (Embedding (h ((xs @ [x]) ! j))) < s0)"
        using i by (intro exI [of _ i]) (simp add: nth_append)
      with Some pos mx' s0 bs show ?thesis by simp
    qed
  qed
qed

lemma Get_result:
  "fst (Get h now emb thr m) =
     (case foldl (Get_step h now emb thr) (None, 0) (entries m) of
        (Some p, s) \<Rightarrow> (Some p, s, True) | (None, s) \<Rightarrow> (None, 0, False))"
  by (simp add: Get_def split: prod.splits option.splits)

text \<open>
  Claim C1, amended. \<open>Get\<close> returns, with its similarity and \<open>found = true\<close>, a live
  (not expired) stored entry whose similarity to the query is the highest among the live
  entries with similarity at or above the threshold, provided that this similarity is
  positive; if no live entry has a similarity that is both at or above the threshold and
  positive, it returns \<open>found = false\<close>. (The running best starts at \<open>0\<close>, so an entry with
  similarity \<open>0\<close> or less is never selected.)
\<close>

theorem Get_best_match:
  "(if \<exists>e\<in>set (entries m). qualifies h now embedding threshold e \<and>
         0 < CosineSimilarity embedding (Embedding (h e))
    then \<exists>e\<in>set (entries m). qualifies h now embedding threshold e \<and>
           0 < CosineSimilarity embedding (Embedding (h e)) \<and>
           (\<forall>e'\<in>set (entries m). qualifies h now embedding threshold e' \<longrightarrow>
              CosineSimilarity embedding (Embedding (h e')) \<le> CosineSimilarity embedding (Embedding (h e))) \<and>
           fst (Get h now embedding threshold m) =
             (Some e, CosineSimilarity embedding (Embedding (h e)), True)
    else fst (Get h now embedding threshold m) = (None, 0, False))"
proof -
  obtain b s where scan: "foldl (Get_step h now embedding threshold) (None, 0) (entries m) = (b, s)"
    by (cases "foldl (Get_step h now embedding threshold) (None, 0) (entries m)") auto
  note inv = Get_scan_inv [OF scan]
  show ?thesis
  proof (cases b)
    case None
    with inv have "s = 0"
      and "\<forall>e\<in>set (entries m). qualifies h now embedding threshold e \<longrightarrow>
             CosineSimilarity embedding (Embedding (h e)) \<le> 0"
      by auto
    then have "\<not> (\<exists>e\<in>set (entries m). qualifies h now embedding threshold e \<and>
         0 < CosineSimilarity embedding (Embedding (h e)))"
      by fastforce
    moreover have "fst (Get h now embedding threshold m) = (None, 0, False)"
      using scan None by (simp add: Get_result)
    ultimately show ?thesis by simp
  next
    case (Some p)
    with inv obtain i where i: "i < length (entries m)" "entries m ! i = p"
      and q: "qualifies h now embedding threshold p"
      and s: "s = CosineSimilarity embedding (Embedding (h p))" and pos: "0 < s"
      by auto
    from inv s have mx: "\<forall>e'\<in>set (entries m). qualifies h now embedding threshold e' \<longrightarrow>
        CosineSimilarity embedding (Embedding (h e')) \<le> CosineSimilarity embedding (Embedding (h p))"
      by simp
    from i have mem: "p \<in> set (entries m)" by auto
    have res: "fst (Get h now embedding threshold m) =
        (Some p, CosineSimilarity embedding (Embedding (h p)), True)"
      using scan Some s by (simp add: Get_result)
    from mem q s pos mx res
    have "\<exists>e\<in>set (entries m). qualifies h now embedding threshold e \<and>
           0 < CosineSimilarity embedding (Embedding (h e)) \<and>
           (\<forall>e'\<in>set (entries m). qualifies h now embedding threshold e' \<longrightarrow>
              CosineSimilarity embedding (Embedding (h e')) \<le> CosineSimilarity embedding (Embedding (h e))) \<and>
           fst (Get h now embedding threshold m) =
             (Some e, CosineSimilarity embedding (Embedding (h e)), True)"
      by blast
    moreover from this have "\<exists>e\<in>set (entries m). qualifies h now embedding threshold e \<and>
         0 < CosineSimilarity embedding (Embedding (h e))" by blast
    ultimately show ?thesis by simp
  qed
qed

theorem Get_best_match_witness:
  "(\<exists>e\<in>set (entries (cache example_A_B)). qualifies example_heap 200 [1, 0, 0] (9 / 10) e \<and>
       0 < CosineSimilarity [1, 0, 0] (Embedding (example_heap e))) \<and>
   fst (Get example_heap 200 [1, 0, 0] (9 / 10) (cache example_A_B)) = (Some 0, 1, True) \<and>
   \<not> (\<exists>e\<in>set (entries (cache example_A_B)). qualifies example_heap 200 [0, 0, 1] (9 / 10) e \<and>
       0 < CosineSimilarity [0, 0, 1] (Embedding (example_heap e))) \<and>
   fst (Get example_heap 200 [0, 0, 1] (9 / 10) (cache example_A_B)) = (None, 0, False)"
  using Get_best_match [where m = "cache example_A_B" and h = example_heap and now = 200
      and embedding = "[1, 0, 0]" and threshold = "9 / 10"]
    Get_best_match [where m = "cache example_A_B" and h = example_heap and now = 200
      and embedding = "[0, 0, 1]" and threshold = "9 / 10"]
  by (simp add: example_A_B_eval example_heap_simps fresh_entry_def cos_examples)

text \<open>
  The claim as first stated fails for a threshold of \<open>0\<close>: entry \<open>A\<close> is live and its
  similarity \<open>0\<close> to the query \<open>[0, 0, 1]\<close> reaches the threshold, yet \<open>Get\<close> reports no match.
\<close>

theorem Get_threshold_zero_counterexample:
  "0 \<in> set (entries (cache example_A_B)) \<and> \<not> ExpiresAt (example_heap 0) < 200 \<and>
   (0::real) \<le> CosineSimilarity [0, 0, 1] (Embedding (example_heap 0)) \<and>
   fst (Get example_heap 200 [0, 0, 1] 0 (cache example_A_B)) = (None, 0, False)"
  by (simp add: example_A_B_eval example_heap_simps fresh_entry_def cos_examples
      Get_def Get_step_def)



section \<open>Hit bookkeeping\<close>

text \<open>
  Claim C9, amended. \<open>Get\<close> does not perform the hit bookkeeping itself: when it returns
  (and releases its read lock) the heap is unchanged, so the matched entry's \<open>HitCount\<close> and
  \<open>LastHitAt\<close> are what they were, and a goroutine \<open>updateHitStats\<close> holding the pointer to
  the matched entry has been started. When that goroutine later runs under the write lock, it
  increments \<open>HitCount\<close> and sets \<open>LastHitAt\<close> on the object the pointer refers to and on no
  other, without looking at the cache, whether or not the entry is still stored.
\<close>

theorem Get_defers_hit_bookkeeping:
  "(sys_Get now embedding threshold S = (res, S') \<longrightarrow>
      heap S' = heap S \<and>
      (\<forall>p s. res = (Some p, s, True) \<longrightarrow>
         goroutines S' = goroutines S @ [p] \<and>
         HitCount (heap S' p) = HitCount (heap S p) \<and>
         LastHitAt (heap S' p) = LastHitAt (heap S p))) \<and>
   (k < length (goroutines T) \<longrightarrow>
      HitCount (heap (run_updateHitStats now' k T) (goroutines T ! k)) =
        HitCount (heap T (goroutines T ! k)) + 1 \<and>
      LastHitAt (heap (run_updateHitStats now' k T) (goroutines T ! k)) = now' \<and>
      (\<forall>q. q \<noteq> goroutines T ! k \<longrightarrow> heap (run_updateHitStats now' k T) q = heap T q) \<and>
      cache (run_updateHitStats now' k T) = cache T \<and>
      goroutines (run_updateHitStats now' k T) = take k (goroutines T) @ drop (Suc k) (goroutines T))"
proof (intro conjI impI)
  assume g: "sys_Get now embedding threshold S = (res, S')"
  obtain r m' started where get: "Get (heap S) now embedding threshold (cache S) = (r, m', started)"
    by (cases "Get (heap S) now embedding threshold (cache S)") auto
  with g have res: "res = r" and S': "S' = S\<lparr>cache := m', goroutines := goroutines S @ started\<rparr>"
    by (simp_all add: sys_Get_def)
  from S' show "heap S' = heap S" by simp
  show "\<forall>p s. res = (Some p, s, True) \<longrightarrow>
         goroutines S' = goroutines S @ [p] \<and>
         HitCount (heap S' p) = HitCount (heap S p) \<and>
         LastHitAt (heap S' p) = LastHitAt (heap S p)"
  proof (intro allI impI)
    fix p s assume "res = (Some p, s, True)"
    with res get have "started = [p]"
      by (auto simp add: Get_def split: prod.splits option.splits)
    with S' show "goroutines S' = goroutines S @ [p] \<and>
         HitCount (heap S' p) = HitCount (heap S p) \<and>
         LastHitAt (heap S' p) = LastHitAt (heap S p)" by simp
  qed
next
  assume k: "k < length (goroutines T)"
  then show "HitCount (heap (run_updateHitStats now' k T) (goroutines T ! k)) =
        HitCount (heap T (goroutines T ! k)) + 1"
    by (simp add: run_updateHitStats_def updateHitStats_def)
  from k show "LastHitAt (heap (run_updateHitStats now' k T) (goroutines T ! k)) = now'"
    by (simp add: run_updateHitStats_def updateHitStats_def)
  from k show "\<forall>q. q \<noteq> goroutines T ! k \<longrightarrow> heap (run_updateHitStats now' k T) q = heap T q"
    by (simp add: run_updateHitStats_def updateHitStats_def)
  from k show "cache (run_updateHitStats now' k T) = cache T"
    by (simp add: run_updateHitStats_def)
  from k show "goroutines (run_updateHitStats now' k T) =
      take k (goroutines T) @ drop (Suc k) (goroutines T)"
    by (simp add: run_updateHitStats_def)
qed

theorem Get_defers_hit_bookkeeping_witness:
  "sys_Get 200 [0, 1, 0] (9 / 10) example_A_B = ((Some 1, 1, True), example_after_Get) \<and>
   heap example_after_Get = heap example_A_B \<and>
   goroutines example_after_Get = goroutines example_A_B @ [1] \<and>
   0 < length (goroutines example_after_Get) \<and>
   HitCount (heap (run_updateHitStats 201 0 example_after_Get) (goroutines example_after_Get ! 0)) =
     HitCount (heap example_after_Get (goroutines example_after_Get ! 0)) + 1 \<and>
   LastHitAt (heap (run_updateHitStats 201 0 example_after_Get) (goroutines example_after_Get ! 0)) = 201"
proof -
  have get: "sys_Get 200 [0, 1, 0] (9 / 10) example_A_B = ((Some 1, 1, True), example_after_Get)"
    by (simp add: example_Get_B example_after_Get_eval)
  have k: "0 < length (goroutines example_after_Get)" by (simp add: example_after_Get_eval)
  note inst = Get_defers_hit_bookkeeping [where now = 200 and embedding = "[0, 1, 0]"
      and threshold = "9 / 10" and S = example_A_B and res = "(Some 1, 1, True)"
      and S' = example_after_Get and k = 0 and T = example_after_Get and now' = 201]
  from inst get k show ?thesis by blast
qed

text \<open>
  The claim as first stated fails: after the hit on \<open>B\<close>, \<open>Get\<close> has returned and \<open>B\<close> still has
  \<open>HitCount = 0\<close> and a zero \<open>LastHitAt\<close>, with the update pending as a goroutine. If \<open>Clear\<close>
  runs before that goroutine, the update is made on an entry that is no longer stored.
\<close>

theorem Get_synchronous_bookkeeping_counterexample:
  "fst (sys_Get 200 [0, 1, 0] (9 / 10) example_A_B) = (Some 1, 1, True) \<and>
   HitCount (heap example_A_B 1) = 0 \<and> LastHitAt (heap example_A_B 1) = 0 \<and>
   HitCount (heap (snd (sys_Get 200 [0, 1, 0] (9 / 10) example_A_B)) 1) = 0 \<and>
   LastHitAt (heap (snd (sys_Get 200 [0, 1, 0] (9 / 10) example_A_B)) 1) = 0 \<and>
   goroutines (snd (sys_Get 200 [0, 1, 0] (9 / 10) example_A_B)) = [1] \<and>
   entries (cache (run_updateHitStats 201 0
      (sys_Clear (snd (sys_Get 200 [0, 1, 0] (9 / 10) example_A_B))))) = [] \<and>
   HitCount (heap (run_updateHitStats 201 0
      (sys_Clear (snd (sys_Get 200 [0, 1, 0] (9 / 10) example_A_B)))) 1) = 1"
proof -
  have before: "HitCount (heap example_A_B 1) = 0 \<and> LastHitAt (heap example_A_B 1) = 0"
    by (simp add: example_A_B_eval example_heap_simps fresh_entry_def)
  have after: "fst (sys_Get 200 [0, 1, 0] (9 / 10) example_A_B) = (Some 1, 1, True) \<and>
     HitCount (heap (snd (sys_Get 200 [0, 1, 0] (9 / 10) example_A_B)) 1) = 0 \<and>
     LastHitAt (heap (snd (sys_Get 200 [0, 1, 0] (9 / 10) example_A_B)) 1) = 0 \<and>
     goroutines (snd (sys_Get 200 [0, 1, 0] (9 / 10) example_A_B)) = [1]"
    by (simp add: example_Get_B example_heap_simps fresh_entry_def)
  have lost: "entries (cache (run_updateHitStats 201 0
       (sys_Clear (snd (sys_Get 200 [0, 1, 0] (9 / 10) example_A_B))))) = [] \<and>
     HitCount (heap (run_updateHitStats 201 0
       (sys_Clear (snd (sys_Get 200 [0, 1, 0] (9 / 10) example_A_B)))) 1) = 1"
    by (simp add: example_Get_B example_heap_simps fresh_entry_def
        sys_Clear_def Clear_def run_updateHitStats_def updateHitStats_def)
  from before after lost show ?thesis by blast
qed

end
